theory Spec2Isabelle
  imports Main "HOL-Library.Sublist"
begin

section \<open>The YCOE chunk-tree builder and the document readers\<close>

text \<open>
  This theory embeds the per-sentence body of \<^verbatim>\<open>_chunk_parse\<close>
  (\<^verbatim>\<open>nltk/corpus/reader/ycoe.py\<close>), the annotation stripping of
  \<^verbatim>\<open>YCOEParseCorpusReader._parse\<close> and of the module-level \<^verbatim>\<open>_parse\<close>,
  and the format dispatch of the two \<^verbatim>\<open>read_document\<close> functions.
  Python exceptions are values of the type \<open>error\<close>; a function that can raise returns
  \<open>error + 'a\<close> with \<open>Inl\<close> for the exception.
\<close>

subsection \<open>Data\<close>

datatype error = IndexError | TypeError | AttributeError | ValueError

text \<open>
  A child of a tree is a \<^verbatim>\<open>tree.Tree\<close> or the tuple \<^verbatim>\<open>(itmType, text)\<close>.
  \<^verbatim>\<open>itmType\<close> starts as \<^verbatim>\<open>None\<close>, so the tag of a leaf is optional.
\<close>

datatype tree = Leaf "string option" string | Tree string "tree list"

record policy =
  chunk_types :: "string list option"
  top_node :: string
  partial_match :: bool
  collapse_partials :: bool
  cascade :: bool

record scan_state =
  bracket :: int
  itmType :: "string option"
  stack :: "tree list"
  inTag :: "int list"

subsection \<open>Brackets and splitting\<close>

definition L_BRACKET :: "char \<Rightarrow> bool" where
  "L_BRACKET c = (c = CHR ''('' \<or> c = CHR ''['' \<or> c = CHR ''{'' \<or> c = CHR ''<'')"

definition R_BRACKET :: "char \<Rightarrow> bool" where
  "R_BRACKET c = (c = CHR '')'' \<or> c = CHR '']'' \<or> c = CHR ''}'' \<or> c = CHR ''>'')"

text \<open>\<^verbatim>\<open>string.split(s, sep)\<close> for a separator of one character.\<close>

fun split :: "string \<Rightarrow> char \<Rightarrow> string list" where
  "split [] sep = [[]]"
| "split (c # cs) sep =
     (if c = sep then [] # split cs sep
      else (case split cs sep of [] \<Rightarrow> [[c]] | piece # pieces \<Rightarrow> (c # piece) # pieces))"

subsection \<open>Mutating the frames\<close>

text \<open>\<^verbatim>\<open>t.append(x)\<close>: a tuple has no \<^verbatim>\<open>append\<close>.\<close>

fun tree_append :: "tree \<Rightarrow> tree \<Rightarrow> error + tree" where
  "tree_append (Tree label children) x = Inr (Tree label (children @ [x]))"
| "tree_append (Leaf tag text) x = Inl AttributeError"

text \<open>\<^verbatim>\<open>stack[-1].append(x)\<close>\<close>

definition append_top :: "tree list \<Rightarrow> tree \<Rightarrow> error + tree list" where
  "append_top stk x =
     (if stk = [] then Inl IndexError
      else (case tree_append (last stk) x of
              Inl e \<Rightarrow> Inl e
            | Inr t \<Rightarrow> Inr (butlast stk @ [t])))"

text \<open>\<^verbatim>\<open>stack[-1][-1].append(x)\<close>: the last child of the top frame must be a tree.\<close>

definition append_top_last :: "tree list \<Rightarrow> tree \<Rightarrow> error + tree list" where
  "append_top_last stk x =
     (if stk = [] then Inl IndexError
      else (case last stk of
              Leaf tag text \<Rightarrow> Inl AttributeError
            | Tree label children \<Rightarrow>
                (if children = [] then Inl IndexError
                 else (case tree_append (last children) x of
                         Inl e \<Rightarrow> Inl e
                       | Inr t \<Rightarrow> Inr (butlast stk @ [Tree label (butlast children @ [t])])))))"

text \<open>
  \<^verbatim>\<open>if len(stack) > 1: stack[-2].append(stack[-1]); stack = stack[:-1]\<close>
\<close>

definition reparent :: "tree list \<Rightarrow> error + tree list" where
  "reparent stk =
     (if length stk > 1 then append_top (butlast stk) (last stk) else Inr stk)"

subsection \<open>Matching a label against the chunk policy\<close>

text \<open>
  The loop \<^verbatim>\<open>for eachItm in chunk_types\<close> of partial matching. It has no
  \<^verbatim>\<open>break\<close>, and with \<^verbatim>\<open>collapse_partials\<close> it assigns to \<^verbatim>\<open>itm\<close>, so the
  next entries are compared with the collapsed label.
\<close>

fun partial_loop :: "bool \<Rightarrow> string list \<Rightarrow> bool \<times> string \<Rightarrow> bool \<times> string" where
  "partial_loop collapse [] (matched, itm) = (matched, itm)"
| "partial_loop collapse (eachItm # rest) (matched, itm) =
     (if length eachItm \<le> length itm \<and> eachItm = take (length eachItm) itm
      then partial_loop collapse rest (True, if collapse then eachItm else itm)
      else partial_loop collapse rest (matched, itm))"

text \<open>Iterating over \<^verbatim>\<open>None\<close> raises \<^verbatim>\<open>TypeError\<close>.\<close>

definition match_label :: "policy \<Rightarrow> string \<Rightarrow> error + (bool \<times> string)" where
  "match_label p itm =
     (if partial_match p then
        (case chunk_types p of
           None \<Rightarrow> Inl TypeError
         | Some cts \<Rightarrow> Inr (partial_loop (collapse_partials p) cts (False, itm)))
      else
        (case chunk_types p of
           None \<Rightarrow> Inr (False, itm)
         | Some cts \<Rightarrow> Inr (itm \<in> set cts, itm)))"

subsection \<open>One token\<close>

text \<open>
  The block under \<^verbatim>\<open>if L_BRACKET.match(itm[0])\<close>. It returns the new state and the
  token as the block leaves it (\<^verbatim>\<open>itm\<close> is reassigned), which the closing block reads.
\<close>

definition open_bracket :: "policy \<Rightarrow> scan_state \<Rightarrow> string \<Rightarrow> error + (scan_state \<times> string)" where
  "open_bracket p st itm =
     (case itm of
        [] \<Rightarrow> Inl IndexError
      | c # rest \<Rightarrow>
          (if L_BRACKET c then
             (case match_label p rest of
                Inl e \<Rightarrow> Inl e
              | Inr (matched, itm') \<Rightarrow>
                  (let b = bracket st + 1;
                       chunk = Tree itm' [];
                       st1 = st\<lparr>bracket := b, itmType := Some itm'\<rparr>
                   in if matched then
                        (if cascade p then
                           Inr (st1\<lparr>stack := stack st @ [chunk], inTag := inTag st @ [b]\<rparr>, itm')
                         else if inTag st = [] then
                           (case append_top (stack st) chunk of
                              Inl e \<Rightarrow> Inl e
                            | Inr stk \<Rightarrow> Inr (st1\<lparr>stack := stk, inTag := inTag st @ [b]\<rparr>, itm'))
                         else Inr (st1, itm'))
                      else Inr (st1, itm')))
           else Inr (st, itm)))"

text \<open>
  The loop \<^verbatim>\<open>while len(inTag) > 0 and bracket < inTag[-1]\<close>. Each round re-parents
  at most one frame and assigns \<^verbatim>\<open>inTag[:-2]\<close>.
\<close>

function close_loop :: "policy \<Rightarrow> scan_state \<Rightarrow> error + scan_state" where
  "close_loop p st =
     (if inTag st \<noteq> [] \<and> bracket st < last (inTag st) then
        (case (if cascade p then reparent (stack st) else Inr (stack st)) of
           Inl e \<Rightarrow> Inl e
         | Inr stk \<Rightarrow> close_loop p (st\<lparr>stack := stk, inTag := butlast (butlast (inTag st))\<rparr>))
      else Inr st)"
  by pat_completeness auto
termination
  by (relation "measure (\<lambda>(p, st). length (inTag st))") auto

declare close_loop.simps [simp del]

text \<open>
  The block under \<^verbatim>\<open>if R_BRACKET.match(itm[-1])\<close>. The test \<^verbatim>\<open>tmpItm != ""\<close>
  compares a list with a string and is always true, so the leaf is always attached.
\<close>

definition attach_leaf :: "policy \<Rightarrow> scan_state \<Rightarrow> tree \<Rightarrow> error + scan_state" where
  "attach_leaf p st leaf =
     (if inTag st \<noteq> [] \<and> last (inTag st) \<le> bracket st then
        (case (if cascade p then append_top (stack st) leaf
               else append_top_last (stack st) leaf) of
           Inl e \<Rightarrow> Inl e
         | Inr stk \<Rightarrow> Inr (st\<lparr>stack := stk\<rparr>))
      else
        (case (if cascade p then reparent (stack st) else Inr (stack st)) of
           Inl e \<Rightarrow> Inl e
         | Inr stk \<Rightarrow>
             (case append_top stk leaf of
                Inl e \<Rightarrow> Inl e
              | Inr stk' \<Rightarrow> Inr (st\<lparr>stack := stk', inTag := butlast (butlast (inTag st))\<rparr>))))"

definition close_bracket :: "policy \<Rightarrow> scan_state \<Rightarrow> string \<Rightarrow> error + scan_state" where
  "close_bracket p st itm =
     (if itm = [] then Inl IndexError
      else if R_BRACKET (last itm) then
        (let tmpItm = split itm (last itm) in
         case tmpItm of
           [] \<Rightarrow> Inl IndexError
         | text # pieces \<Rightarrow>
             (case attach_leaf p st (Leaf (itmType st) text) of
                Inl e \<Rightarrow> Inl e
              | Inr st' \<Rightarrow>
                  close_loop p (st'\<lparr>bracket := bracket st' - (int (length tmpItm) - 1)\<rparr>)))
      else Inr st)"

definition step :: "policy \<Rightarrow> scan_state \<Rightarrow> string \<Rightarrow> error + scan_state" where
  "step p st itm =
     (case open_bracket p st itm of
        Inl e \<Rightarrow> Inl e
      | Inr (st', itm') \<Rightarrow> close_bracket p st' itm')"

subsection \<open>One sentence\<close>

fun run :: "policy \<Rightarrow> scan_state \<Rightarrow> string list \<Rightarrow> error + scan_state" where
  "run p st [] = Inr st"
| "run p st (itm # itms) =
     (case step p st itm of Inl e \<Rightarrow> Inl e | Inr st' \<Rightarrow> run p st' itms)"

definition init :: "policy \<Rightarrow> scan_state" where
  "init p = \<lparr>bracket = 0, itmType = None, stack = [Tree (top_node p) []], inTag = []\<rparr>"

text \<open>What \<^verbatim>\<open>_chunk_parse\<close> yields for the tokens of one sentence: the list \<^verbatim>\<open>stack\<close>.\<close>

definition chunk_parse_sentence :: "policy \<Rightarrow> string list \<Rightarrow> error + tree list" where
  "chunk_parse_sentence p toks =
     (case run p (init p) toks of Inl e \<Rightarrow> Inl e | Inr st \<Rightarrow> Inr (stack st))"

text \<open>The default arguments of \<^verbatim>\<open>read_document\<close> and \<^verbatim>\<open>chunked\<close>.\<close>

definition default_policy :: policy where
  "default_policy =
     \<lparr>chunk_types = Some [''NP''], top_node = ''S'', partial_match = False,
      collapse_partials = True, cascade = False\<rparr>"

subsection \<open>Reading a result\<close>

text \<open>The leaves of a tree, depth-first and left to right, and those of all frames of a stack.\<close>

fun leaves :: "tree \<Rightarrow> (string option \<times> string) list" where
  "leaves (Leaf tag text) = [(tag, text)]"
| "leaves (Tree label children) = concat (map leaves children)"

definition stack_leaves :: "tree list \<Rightarrow> (string option \<times> string) list" where
  "stack_leaves stk = concat (map leaves stk)"

text \<open>
  The value that the opening block leaves in \<^verbatim>\<open>itm\<close> and in \<^verbatim>\<open>itmType\<close> for
  a label: only partial matching with \<^verbatim>\<open>collapse_partials\<close> assigns to it.
\<close>

definition relabel :: "policy \<Rightarrow> string \<Rightarrow> string" where
  "relabel p itm =
     (if partial_match p \<and> collapse_partials p
      then snd (partial_loop True (case chunk_types p of None \<Rightarrow> [] | Some cts \<Rightarrow> cts) (False, itm))
      else itm)"

text \<open>
  The leaves that the scan attaches, read off the tokens with the register
  \<^verbatim>\<open>itmType\<close> alone: no frame stack, no depth markers, no bracket counter.
\<close>

fun terminals :: "policy \<Rightarrow> string option \<Rightarrow> string list \<Rightarrow> (string option \<times> string) list" where
  "terminals p reg [] = []"
| "terminals p reg (itm # itms) =
     (let itm' = (if itm \<noteq> [] \<and> L_BRACKET (hd itm) then relabel p (tl itm) else itm);
          reg' = (if itm \<noteq> [] \<and> L_BRACKET (hd itm) then Some itm' else reg)
      in (if itm' \<noteq> [] \<and> R_BRACKET (last itm') then [(reg', hd (split itm' (last itm')))] else [])
         @ terminals p reg' itms)"

text \<open>
  A token the scan can index: it is not empty, and what an opening bracket leaves in
  \<^verbatim>\<open>itm\<close> is not empty either (\<^verbatim>\<open>itm[0]\<close> and \<^verbatim>\<open>itm[-1]\<close> raise on \<^verbatim>\<open>""\<close>).
\<close>

definition token_ok :: "policy \<Rightarrow> string \<Rightarrow> bool" where
  "token_ok p itm = (itm \<noteq> [] \<and> (if L_BRACKET (hd itm) then relabel p (tl itm) \<noteq> [] else True))"

text \<open>
  The frames are trees; without cascading there is at most one depth marker, and while
  there is one the last child of the top frame is the open chunk.
\<close>

definition is_Tree :: "tree \<Rightarrow> bool" where
  "is_Tree t = (case t of Tree label children \<Rightarrow> True | Leaf tag text \<Rightarrow> False)"

definition frames_ok :: "policy \<Rightarrow> scan_state \<Rightarrow> bool" where
  "frames_ok p st =
     (stack st \<noteq> [] \<and> list_all is_Tree (stack st) \<and>
      (if cascade p then True
       else length (inTag st) \<le> 1 \<and>
            (if inTag st = [] then True
             else (case last (stack st) of
                     Leaf tag text \<Rightarrow> False
                   | Tree label children \<Rightarrow> children \<noteq> [] \<and> is_Tree (last children)))))"

subsection \<open>Notions of the specification\<close>

text \<open>
  Balanced brackets, read character by character over the tokens of a sentence: the depth
  never drops below zero and ends at zero.
\<close>

fun depth_after :: "int \<Rightarrow> string \<Rightarrow> int option" where
  "depth_after d [] = Some d"
| "depth_after d (c # cs) =
     (if L_BRACKET c then depth_after (d + 1) cs
      else if R_BRACKET c then (if d \<le> 0 then None else depth_after (d - 1) cs)
      else depth_after d cs)"

definition balanced_brackets :: "string list \<Rightarrow> bool" where
  "balanced_brackets toks = (depth_after 0 (concat toks) = Some 0)"




subsection \<open>Stripping the annotation nodes\<close>

text \<open>
  \<^verbatim>\<open>re.sub(pattern, '', s)\<close> for a pattern that never matches the empty string:
  the text is read from the left, a match at the current position is dropped, and a
  character where nothing matches is kept. The pattern is given by the length of its
  match at the start of a text.
\<close>

fun sub_from :: "(string \<Rightarrow> nat option) \<Rightarrow> nat \<Rightarrow> string \<Rightarrow> string" where
  "sub_from pattern skip [] = []"
| "sub_from pattern (Suc skip) (c # cs) = sub_from pattern skip cs"
| "sub_from pattern 0 (c # cs) =
     (case pattern (c # cs) of
        Some (Suc n) \<Rightarrow> sub_from pattern n cs
      | Some 0 \<Rightarrow> c # sub_from pattern 0 cs
      | None \<Rightarrow> c # sub_from pattern 0 cs)"

definition re_sub :: "(string \<Rightarrow> nat option) \<Rightarrow> string \<Rightarrow> string" where
  "re_sub pattern s = sub_from pattern 0 s"

text \<open>\<^verbatim>\<open>[^\)]*\)\<close>: up to and with the first closing parenthesis.\<close>

fun first_close :: "string \<Rightarrow> nat option" where
  "first_close [] = None"
| "first_close (c # cs) =
     (if c = CHR '')'' then Some 1 else map_option Suc (first_close cs))"

text \<open>The pattern \<^verbatim>\<open>\((CODE|ID)[^\)]*\)\<close> of \<^verbatim>\<open>YCOEParseCorpusReader._parse\<close>.\<close>

definition code_id_node :: "string \<Rightarrow> nat option" where
  "code_id_node s =
     (if take 5 s = ''(CODE'' then map_option (\<lambda>n. 5 + n) (first_close (drop 5 s))
      else if take 3 s = ''(ID'' then map_option (\<lambda>n. 3 + n) (first_close (drop 3 s))
      else None)"

text \<open>
  \<^verbatim>\<open>YCOEParseCorpusReader._parse(self, t)\<close> binds the stripped text to \<^verbatim>\<open>s\<close>
  and then calls \<^verbatim>\<open>BracketParseCorpusReader._parse(t)\<close>: through the class, with the
  text \<^verbatim>\<open>t\<close> as the only argument and without \<^verbatim>\<open>self\<close>. The base class is
  not part of these sources, so its \<^verbatim>\<open>_parse\<close> is a parameter, with the way it is
  bound. For an instance method, which the signature \<^verbatim>\<open>(self, t)\<close> of the override
  stands for, Python 2 refuses the call of the unbound method with a string in the place of
  the instance and raises \<^verbatim>\<open>TypeError\<close>; the body does not run. A method that takes
  the text alone (a static method) is run on \<^verbatim>\<open>t\<close>.
\<close>

datatype 'a base_parser = Instance_method "string \<Rightarrow> 'a" | Static_method "string \<Rightarrow> 'a"

definition YCOEParseCorpusReader_parse :: "'a base_parser \<Rightarrow> string \<Rightarrow> error + 'a" where
  "YCOEParseCorpusReader_parse BracketParseCorpusReader_parse t =
     (let s = re_sub code_id_node t
      in case BracketParseCorpusReader_parse of
           Instance_method body \<Rightarrow> Inl TypeError
         | Static_method body \<Rightarrow> Inr (body t))"

text \<open>
  The pattern of the module's \<^verbatim>\<open>_parse\<close>. It is compiled with \<^verbatim>\<open>re.VERBOSE\<close>,
  which drops the blanks of the pattern, so it is \<^verbatim>\<open>\(CODE.*\)|\(ID.*\d\)\<close>;
  \<^verbatim>\<open>.*\<close> is greedy and stays on the line.
\<close>

definition is_digit :: "char \<Rightarrow> bool" where
  "is_digit c = (c \<in> set ''0123456789'')"

fun last_close :: "string \<Rightarrow> nat option" where
  "last_close [] = None"
| "last_close (c # cs) =
     (if c = CHR 0x0A then None
      else (case last_close cs of
              Some n \<Rightarrow> Some (Suc n)
            | None \<Rightarrow> if c = CHR '')'' then Some 1 else None))"

fun last_digit_close :: "string \<Rightarrow> nat option" where
  "last_digit_close [] = None"
| "last_digit_close (c # cs) =
     (if c = CHR 0x0A then None
      else (case last_digit_close cs of
              Some n \<Rightarrow> Some (Suc n)
            | None \<Rightarrow> if is_digit c \<and> take 1 cs = '')'' then Some 2 else None))"

definition code_or_id_line :: "string \<Rightarrow> nat option" where
  "code_or_id_line s =
     (if take 5 s = ''(CODE'' then map_option (\<lambda>n. 5 + n) (last_close (drop 5 s))
      else if take 3 s = ''(ID'' then map_option (\<lambda>n. 3 + n) (last_digit_close (drop 3 s))
      else None)"

text \<open>The first statement of \<^verbatim>\<open>_parse\<close>, whose result is cut into sentences.\<close>

definition parse_strip :: "string \<Rightarrow> string" where
  "parse_strip s = re_sub code_or_id_line s"

subsection \<open>The format dispatch of the readers\<close>

text \<open>
  File lookup and the readers of each format are not part of these sources. A call of
  \<^verbatim>\<open>read_document\<close> is modelled by the reads it performs, in order: which reader
  on which document (a chunked reading of the YCOE reader with its chunk policy).
\<close>

datatype item = Doc string | Docs "item list"

datatype reading =
    Raw string | Tokenized string | Tagged string | Chunked string "policy option"
  | Parsed string | ParsedNoPos string

text \<open>
  For a list of documents (\<^verbatim>\<open>isinstance(item, list)\<close>) every document is read with
  the same arguments and \<^verbatim>\<open>concat\<close> joins the results, here the reads. The list
  comprehension over the documents stops at the first exception.
\<close>

fun collect :: "(error + 'a list) list \<Rightarrow> error + 'a list" where
  "collect [] = Inr []"
| "collect (r # rs) =
     (case r of
        Inl e \<Rightarrow> Inl e
      | Inr xs \<Rightarrow> (case collect rs of Inl e \<Rightarrow> Inl e | Inr ys \<Rightarrow> Inr (xs @ ys)))"

text \<open>\<^verbatim>\<open>read_document\<close> of \<^verbatim>\<open>nltk/corpus/reader/ycoe.py\<close>.\<close>

fun ycoe_read_document :: "item \<Rightarrow> string \<Rightarrow> policy \<Rightarrow> error + reading list" where
  "ycoe_read_document (Docs docs) format pol =
     collect (map (\<lambda>doc. ycoe_read_document doc format pol) docs)"
| "ycoe_read_document (Doc name) format pol =
     (if format = ''raw'' then Inr [Raw name]
      else if format = ''tokenized'' then Inr [Tokenized name]
      else if format = ''tagged'' then Inr [Tagged name]
      else if format = ''chunked'' then Inr [Chunked name (Some pol)]
      else if format = ''parsed'' then Inr [Parsed name]
      else Inl ValueError)"

text \<open>\<^verbatim>\<open>read_document\<close> of \<^verbatim>\<open>nltk/corpus/treebank.py\<close>.\<close>

definition treebank_read_document :: "string \<Rightarrow> string \<Rightarrow> error + reading list" where
  "treebank_read_document name format =
     (if format = ''parsed'' then Inr [Parsed name]
      else if format = ''parsed-no-pos'' then Inr [ParsedNoPos name]
      else if format = ''chunked'' then Inr [Chunked name None]
      else if format = ''tagged'' then Inr [Tagged name]
      else if format = ''tokenized'' then Inr [Tokenized name]
      else if format = ''raw'' then Inr [Raw name]
      else Inl ValueError)"

text \<open>The closed set of formats of the specification.\<close>

definition formats :: "string set" where
  "formats = {''raw'', ''tokenized'', ''tagged'', ''chunked'', ''parsed'', ''parsed-no-pos''}"

section \<open>Properties\<close>

subsection \<open>The leaves of the frames\<close>

lemma tree_append_leaves:
  "tree_append t x = Inr t' \<Longrightarrow> leaves t' = leaves t @ leaves x"
  by (cases t) auto

lemma stack_leaves_snoc: "stack_leaves (stk @ [t]) = stack_leaves stk @ leaves t"
  by (simp add: stack_leaves_def)

lemma stack_leaves_butlast:
  "stk \<noteq> [] \<Longrightarrow> stack_leaves (butlast stk) @ leaves (last stk) = stack_leaves stk"
  by (metis append_butlast_last_id stack_leaves_snoc)

lemma append_top_leaves:
  assumes "append_top stk x = Inr stk'"
  shows "stack_leaves stk' = stack_leaves stk @ leaves x"
proof -
  from assms have ne: "stk \<noteq> []" by (auto simp: append_top_def split: if_splits)
  from assms ne obtain t where t: "tree_append (last stk) x = Inr t" and s: "stk' = butlast stk @ [t]"
    by (auto simp: append_top_def split: sum.splits)
  have "stack_leaves stk' = stack_leaves (butlast stk) @ leaves (last stk) @ leaves x"
    using s tree_append_leaves[OF t] by (simp add: stack_leaves_snoc)
  then show ?thesis using stack_leaves_butlast[OF ne] by simp
qed

lemma append_top_last_leaves:
  assumes "append_top_last stk x = Inr stk'"
  shows "stack_leaves stk' = stack_leaves stk @ leaves x"
proof -
  from assms have ne: "stk \<noteq> []" by (auto simp: append_top_last_def split: if_splits)
  from assms ne obtain label children t where
    l: "last stk = Tree label children" and c: "children \<noteq> []"
    and t: "tree_append (last children) x = Inr t"
    and s: "stk' = butlast stk @ [Tree label (butlast children @ [t])]"
    by (auto simp: append_top_last_def split: sum.splits tree.splits if_splits)
  have "concat (map leaves (butlast children)) @ leaves (last children) = concat (map leaves children)"
    using c by (induction children rule: rev_induct) simp_all
  then have "leaves (Tree label (butlast children @ [t])) = leaves (last stk) @ leaves x"
    using tree_append_leaves[OF t] l by simp
  then have "stack_leaves stk' = stack_leaves (butlast stk) @ leaves (last stk) @ leaves x"
    using s by (simp add: stack_leaves_snoc)
  then show ?thesis using stack_leaves_butlast[OF ne] by simp
qed

lemma reparent_leaves:
  assumes "reparent stk = Inr stk'"
  shows "stack_leaves stk' = stack_leaves stk"
proof (cases "length stk > 1")
  case True
  then have ne: "stk \<noteq> []" by auto
  from True assms have "append_top (butlast stk) (last stk) = Inr stk'"
    by (simp add: reparent_def)
  from append_top_leaves[OF this] show ?thesis using stack_leaves_butlast[OF ne] by simp
next
  case False
  with assms show ?thesis by (simp add: reparent_def)
qed

lemma close_loop_leaves:
  "close_loop p st = Inr st' \<Longrightarrow>
     stack_leaves (stack st') = stack_leaves (stack st) \<and> itmType st' = itmType st"
proof (induction p st rule: close_loop.induct)
  case (1 p st)
  show ?case
  proof (cases "inTag st \<noteq> [] \<and> bracket st < last (inTag st)")
    case False
    then have "close_loop p st = Inr st"
      by (subst close_loop.simps) (rule if_not_P)
    with "1.prems" show ?thesis by simp
  next
    case True
    then obtain stk where stk: "(if cascade p then reparent (stack st) else Inr (stack st)) = Inr stk"
      and rec: "close_loop p (st\<lparr>stack := stk, inTag := butlast (butlast (inTag st))\<rparr>) = Inr st'"
      using "1.prems" by (subst (asm) close_loop.simps) (auto split: sum.splits)
    have "stack_leaves stk = stack_leaves (stack st)"
      using stk reparent_leaves by (auto split: if_splits)
    with "1.IH"[OF True stk rec] show ?thesis by simp
  qed
qed

lemma open_bracket_leaves:
  assumes "open_bracket p st itm = Inr (st', itm')"
  shows "stack_leaves (stack st') = stack_leaves (stack st)"
proof (cases itm)
  case Nil
  with assms show ?thesis by (simp add: open_bracket_def)
next
  case (Cons c rest)
  show ?thesis
  proof (cases "L_BRACKET c")
    case False
    with assms Cons show ?thesis by (simp add: open_bracket_def)
  next
    case True
    with assms Cons obtain matched lbl where m: "match_label p rest = Inr (matched, lbl)"
      by (auto simp: open_bracket_def split: sum.splits)
    show ?thesis
    proof (cases "matched \<and> \<not> cascade p \<and> inTag st = []")
      case True
      with assms Cons \<open>L_BRACKET c\<close> m obtain stk where
        a: "append_top (stack st) (Tree lbl []) = Inr stk" and "stack st' = stk"
        by (auto simp: open_bracket_def Let_def split: sum.splits)
      with append_top_leaves[OF a] show ?thesis by simp
    next
      case False
      with assms Cons \<open>L_BRACKET c\<close> m show ?thesis
        by (auto simp: open_bracket_def Let_def stack_leaves_snoc split: if_splits)
    qed
  qed
qed

lemma attach_leaf_leaves:
  assumes "attach_leaf p st (Leaf tag text) = Inr st'"
  shows "stack_leaves (stack st') = stack_leaves (stack st) @ [(tag, text)] \<and> itmType st' = itmType st"
proof (cases "inTag st \<noteq> [] \<and> last (inTag st) \<le> bracket st")
  case True
  show ?thesis
  proof (cases "cascade p")
    case True
    with assms \<open>inTag st \<noteq> [] \<and> last (inTag st) \<le> bracket st\<close> obtain stk where
      a: "append_top (stack st) (Leaf tag text) = Inr stk" and s: "st' = st\<lparr>stack := stk\<rparr>"
      by (auto simp: attach_leaf_def split: sum.splits)
    from append_top_leaves[OF a] s show ?thesis by simp
  next
    case False
    with assms \<open>inTag st \<noteq> [] \<and> last (inTag st) \<le> bracket st\<close> obtain stk where
      a: "append_top_last (stack st) (Leaf tag text) = Inr stk" and s: "st' = st\<lparr>stack := stk\<rparr>"
      by (auto simp: attach_leaf_def split: sum.splits)
    from append_top_last_leaves[OF a] s show ?thesis by simp
  qed
next
  case False
  with assms obtain stk stk' where
    r: "(if cascade p then reparent (stack st) else Inr (stack st)) = Inr stk"
    and a: "append_top stk (Leaf tag text) = Inr stk'"
    and s: "st' = st\<lparr>stack := stk', inTag := butlast (butlast (inTag st))\<rparr>"
    by (simp add: attach_leaf_def split: sum.splits)
  have "stack_leaves stk = stack_leaves (stack st)"
    using r reparent_leaves by (auto split: if_splits)
  with append_top_leaves[OF a] s show ?thesis by simp
qed

lemma close_bracket_leaves:
  assumes "close_bracket p st itm = Inr st'"
  shows "stack_leaves (stack st') = stack_leaves (stack st) @
           (if itm \<noteq> [] \<and> R_BRACKET (last itm) then [(itmType st, hd (split itm (last itm)))] else [])
         \<and> itmType st' = itmType st"
proof (cases "itm \<noteq> [] \<and> R_BRACKET (last itm)")
  case False
  with assms show ?thesis by (auto simp: close_bracket_def split: if_splits)
next
  case True
  with assms obtain w pieces st1 where
    sp: "split itm (last itm) = w # pieces"
    and a: "attach_leaf p st (Leaf (itmType st) w) = Inr st1"
    and c: "close_loop p (st1\<lparr>bracket := bracket st1 - (int (length (split itm (last itm))) - 1)\<rparr>) = Inr st'"
    by (auto simp: close_bracket_def Let_def split: list.splits sum.splits)
  from attach_leaf_leaves[OF a] close_loop_leaves[OF c] sp True show ?thesis by simp
qed

lemma partial_loop_keep: "snd (partial_loop False cts (m, itm)) = itm"
  by (induction cts arbitrary: m) simp_all

lemma match_label_relabel:
  "match_label p itm = Inr (m, lbl) \<Longrightarrow> lbl = relabel p itm"
proof -
  assume a: "match_label p itm = Inr (m, lbl)"
  show ?thesis
  proof (cases "partial_match p")
    case False
    with a show ?thesis by (auto simp: match_label_def relabel_def split: option.splits)
  next
    case True
    with a obtain cts where c: "chunk_types p = Some cts"
      and l: "(m, lbl) = partial_loop (collapse_partials p) cts (False, itm)"
      by (auto simp: match_label_def split: option.splits)
    from l have "lbl = snd (partial_loop (collapse_partials p) cts (False, itm))"
      by (metis snd_conv)
    with True c show ?thesis
      by (cases "collapse_partials p") (simp_all add: relabel_def partial_loop_keep)
  qed
qed

lemma open_bracket_token:
  assumes "open_bracket p st itm = Inr (st', itm')"
  shows "itm' = (if itm \<noteq> [] \<and> L_BRACKET (hd itm) then relabel p (tl itm) else itm)
       \<and> itmType st' = (if itm \<noteq> [] \<and> L_BRACKET (hd itm) then Some itm' else itmType st)"
proof (cases itm)
  case Nil
  with assms show ?thesis by (simp add: open_bracket_def)
next
  case (Cons c rest)
  show ?thesis
  proof (cases "L_BRACKET c")
    case False
    with assms Cons show ?thesis by (auto simp: open_bracket_def)
  next
    case True
    with assms Cons obtain matched lbl where m: "match_label p rest = Inr (matched, lbl)"
      by (auto simp: open_bracket_def split: sum.splits)
    from match_label_relabel[OF m] have l: "lbl = relabel p rest" .
    from assms Cons True m have "itm' = lbl \<and> itmType st' = Some lbl"
      by (auto simp: open_bracket_def Let_def split: if_splits sum.splits)
    with l Cons True show ?thesis by simp
  qed
qed

lemma step_leaves:
  assumes "step p st itm = Inr st'"
  shows "stack_leaves (stack st') = stack_leaves (stack st) @ terminals p (itmType st) [itm]
         \<and> terminals p (itmType st) (itm # itms) = terminals p (itmType st) [itm] @ terminals p (itmType st') itms"
proof -
  from assms obtain st1 itm1 where o: "open_bracket p st itm = Inr (st1, itm1)"
    and c: "close_bracket p st1 itm1 = Inr st'"
    by (auto simp: step_def split: sum.splits)
  from open_bracket_token[OF o] open_bracket_leaves[OF o] close_bracket_leaves[OF c]
  show ?thesis by (simp add: Let_def)
qed


subsection \<open>The scan does not raise\<close>

lemma frames_ok_bracket [simp]: "frames_ok p (st\<lparr>bracket := b\<rparr>) = frames_ok p st"
  by (simp add: frames_ok_def)

lemma frames_ok_itmType [simp]: "frames_ok p (st\<lparr>itmType := r\<rparr>) = frames_ok p st"
  by (simp add: frames_ok_def)

lemma append_top_Tree:
  assumes "stk \<noteq> []" "list_all is_Tree stk"
  shows "\<exists>label children. last stk = Tree label children \<and>
           append_top stk x = Inr (butlast stk @ [Tree label (children @ [x])])"
proof -
  from assms have "is_Tree (last stk)" by (simp add: list_all_iff)
  then obtain label children where "last stk = Tree label children"
    by (cases "last stk") (simp_all add: is_Tree_def)
  with assms(1) show ?thesis by (simp add: append_top_def)
qed

lemma list_all_butlast: "list_all P xs \<Longrightarrow> list_all P (butlast xs)"
  by (auto simp: list_all_iff dest: in_set_butlastD)

lemma append_top_frames:
  assumes "stk \<noteq> []" "list_all is_Tree stk"
  shows "\<exists>stk'. append_top stk x = Inr stk' \<and> stk' \<noteq> [] \<and> list_all is_Tree stk'
           \<and> length stk' = length stk"
proof -
  from append_top_Tree[OF assms, of x] obtain label children where
    "append_top stk x = Inr (butlast stk @ [Tree label (children @ [x])])" by blast
  moreover have "list_all is_Tree (butlast stk @ [Tree label (children @ [x])])"
    using list_all_butlast[OF assms(2)] by (simp add: is_Tree_def)
  moreover have "length (butlast stk @ [Tree label (children @ [x])]) = length stk"
    using assms(1) by simp
  ultimately show ?thesis by simp
qed

lemma reparent_frames:
  assumes "stk \<noteq> []" "list_all is_Tree stk"
  shows "\<exists>stk'. reparent stk = Inr stk' \<and> stk' \<noteq> [] \<and> list_all is_Tree stk'"
proof (cases "length stk > 1")
  case False
  with assms show ?thesis by (simp add: reparent_def)
next
  case True
  then have "butlast stk \<noteq> []" by (cases stk) auto
  from append_top_frames[OF this list_all_butlast[OF assms(2)], of "last stk"] True
  show ?thesis by (auto simp: reparent_def)
qed

lemma match_label_total:
  assumes "chunk_types p \<noteq> None \<or> \<not> partial_match p"
  shows "\<exists>m. match_label p itm = Inr (m, relabel p itm)"
proof -
  from assms obtain m lbl where a: "match_label p itm = Inr (m, lbl)"
    by (cases "match_label p itm") (auto simp: match_label_def split: if_splits option.splits)
  from match_label_relabel[OF a] a show ?thesis by blast
qed

lemma open_bracket_frames:
  assumes ok: "frames_ok p st"
    and pol: "chunk_types p \<noteq> None \<or> \<not> partial_match p"
    and tok: "token_ok p itm"
  shows "\<exists>st' itm'. open_bracket p st itm = Inr (st', itm') \<and> frames_ok p st' \<and> itm' \<noteq> []"
proof -
  from tok obtain c rest where itm: "itm = c # rest" by (cases itm) (auto simp: token_ok_def)
  show ?thesis
  proof (cases "L_BRACKET c")
    case False
    with itm ok show ?thesis by (simp add: open_bracket_def)
  next
    case True
    from match_label_total[OF pol, of rest] obtain m where
      m: "match_label p rest = Inr (m, relabel p rest)" by blast
    from tok itm True have ne: "relabel p rest \<noteq> []" by (simp add: token_ok_def)
    from ok have s: "stack st \<noteq> []" "list_all is_Tree (stack st)" by (simp_all add: frames_ok_def)
    show ?thesis
    proof (cases "m \<and> \<not> cascade p \<and> inTag st = []")
      case True
      from append_top_Tree[OF s, of "Tree (relabel p rest) []"] obtain label children where
        a: "append_top (stack st) (Tree (relabel p rest) []) =
              Inr (butlast (stack st) @ [Tree label (children @ [Tree (relabel p rest) []])])"
        by blast
      have "list_all is_Tree (butlast (stack st) @ [Tree label (children @ [Tree (relabel p rest) []])])"
        using list_all_butlast[OF s(2)] by (simp add: is_Tree_def)
      with True itm \<open>L_BRACKET c\<close> m a ne show ?thesis
        by (simp add: open_bracket_def Let_def frames_ok_def is_Tree_def)
    next
      case False
      with itm True m ne ok show ?thesis
        by (auto simp: open_bracket_def Let_def frames_ok_def is_Tree_def)
    qed
  qed
qed

lemma append_top_last_frames:
  assumes "stk \<noteq> []" "list_all is_Tree stk" "last stk = Tree label children"
    "children \<noteq> []" "is_Tree (last children)"
  shows "\<exists>cs. append_top_last stk x = Inr (butlast stk @ [Tree label cs])
           \<and> cs \<noteq> [] \<and> is_Tree (last cs)"
proof -
  from assms(5) obtain l cs where "last children = Tree l cs"
    by (cases "last children") (simp_all add: is_Tree_def)
  with assms show ?thesis by (simp add: append_top_last_def is_Tree_def)
qed

lemma butlast_butlast_short: "length xs \<le> 1 \<Longrightarrow> butlast (butlast xs) = []"
  by (cases xs) auto

lemma attach_leaf_frames:
  assumes ok: "frames_ok p st"
  shows "\<exists>st'. attach_leaf p st leaf = Inr st' \<and> frames_ok p st'"
proof -
  from ok have s: "stack st \<noteq> []" "list_all is_Tree (stack st)" by (simp_all add: frames_ok_def)
  show ?thesis
  proof (cases "inTag st \<noteq> [] \<and> last (inTag st) \<le> bracket st")
    case True
    show ?thesis
    proof (cases "cascade p")
      case True
      from append_top_frames[OF s, of leaf] obtain stk' where
        "append_top (stack st) leaf = Inr stk'" "stk' \<noteq> []" "list_all is_Tree stk'" by blast
      with True \<open>inTag st \<noteq> [] \<and> last (inTag st) \<le> bracket st\<close> show ?thesis
        by (simp add: attach_leaf_def frames_ok_def)
    next
      case False
      with ok True obtain label children where
        l: "last (stack st) = Tree label children" "children \<noteq> []" "is_Tree (last children)"
        by (auto simp: frames_ok_def split: tree.splits)
      from append_top_last_frames[OF s l, of leaf] obtain cs where
        a: "append_top_last (stack st) leaf = Inr (butlast (stack st) @ [Tree label cs])"
        and c: "cs \<noteq> []" "is_Tree (last cs)" by blast
      have "list_all is_Tree (butlast (stack st) @ [Tree label cs])"
        using list_all_butlast[OF s(2)] by (simp add: is_Tree_def)
      with False True a c ok show ?thesis
        by (simp add: attach_leaf_def frames_ok_def)
    qed
  next
    case False
    have "\<exists>stk. (if cascade p then reparent (stack st) else Inr (stack st)) = Inr stk
            \<and> stk \<noteq> [] \<and> list_all is_Tree stk"
      using reparent_frames[OF s] s by auto
    then obtain stk where r: "(if cascade p then reparent (stack st) else Inr (stack st)) = Inr stk"
      and s1: "stk \<noteq> []" "list_all is_Tree stk" by blast
    from append_top_frames[OF s1, of leaf] obtain stk' where
      a: "append_top stk leaf = Inr stk'" and s2: "stk' \<noteq> []" "list_all is_Tree stk'" by blast
    have "\<not> cascade p \<Longrightarrow> butlast (butlast (inTag st)) = []"
      using ok butlast_butlast_short[of "inTag st"] by (simp add: frames_ok_def)
    with s2 have "frames_ok p (st\<lparr>stack := stk', inTag := butlast (butlast (inTag st))\<rparr>)"
      by (cases "cascade p") (simp_all add: frames_ok_def)
    moreover have "attach_leaf p st leaf =
        (case (if cascade p then reparent (stack st) else Inr (stack st)) of
           Inl e \<Rightarrow> Inl e
         | Inr stk \<Rightarrow>
             (case append_top stk leaf of
                Inl e \<Rightarrow> Inl e
              | Inr stk' \<Rightarrow> Inr (st\<lparr>stack := stk', inTag := butlast (butlast (inTag st))\<rparr>)))"
      unfolding attach_leaf_def using False by (rule if_not_P)
    ultimately show ?thesis by (simp only: r a sum.case) blast
  qed
qed

lemma close_loop_frames:
  "frames_ok p st \<Longrightarrow> \<exists>st'. close_loop p st = Inr st' \<and> frames_ok p st'"
proof (induction p st rule: close_loop.induct)
  case (1 p st)
  show ?case
  proof (cases "inTag st \<noteq> [] \<and> bracket st < last (inTag st)")
    case False
    then have "close_loop p st = Inr st"
      by (subst close_loop.simps) (rule if_not_P)
    with "1.prems" show ?thesis by blast
  next
    case True
    from "1.prems" have s: "stack st \<noteq> []" "list_all is_Tree (stack st)"
      by (simp_all add: frames_ok_def)
    have "\<exists>stk. (if cascade p then reparent (stack st) else Inr (stack st)) = Inr stk
            \<and> stk \<noteq> [] \<and> list_all is_Tree stk"
      using reparent_frames[OF s] s by auto
    then obtain stk where r: "(if cascade p then reparent (stack st) else Inr (stack st)) = Inr stk"
      and s1: "stk \<noteq> []" "list_all is_Tree stk" by blast
    have "\<not> cascade p \<Longrightarrow> butlast (butlast (inTag st)) = []"
      using "1.prems" butlast_butlast_short[of "inTag st"] by (simp add: frames_ok_def)
    with s1 have "frames_ok p (st\<lparr>stack := stk, inTag := butlast (butlast (inTag st))\<rparr>)"
      by (cases "cascade p") (simp_all add: frames_ok_def)
    from "1.IH"[OF True r this] obtain st' where
      c: "close_loop p (st\<lparr>stack := stk, inTag := butlast (butlast (inTag st))\<rparr>) = Inr st'"
      and f: "frames_ok p st'" by blast
    have "close_loop p st =
        (case (if cascade p then reparent (stack st) else Inr (stack st)) of
           Inl e \<Rightarrow> Inl e
         | Inr stk \<Rightarrow> close_loop p (st\<lparr>stack := stk, inTag := butlast (butlast (inTag st))\<rparr>))"
      using True by (subst close_loop.simps) (rule if_P)
    then have "close_loop p st = Inr st'" by (simp only: r c sum.case)
    with f show ?thesis by blast
  qed
qed

lemma split_nonempty: "split s c \<noteq> []"
  by (induction s) (auto split: list.splits)

lemma close_bracket_frames:
  assumes "frames_ok p st" "itm \<noteq> []"
  shows "\<exists>st'. close_bracket p st itm = Inr st' \<and> frames_ok p st'"
proof (cases "R_BRACKET (last itm)")
  case False
  with assms show ?thesis by (simp add: close_bracket_def)
next
  case True
  obtain w pieces where sp: "split itm (last itm) = w # pieces"
    using split_nonempty[of itm "last itm"] by (cases "split itm (last itm)") auto
  from attach_leaf_frames[OF assms(1), of "Leaf (itmType st) w"] obtain st1 where
    a: "attach_leaf p st (Leaf (itmType st) w) = Inr st1" and f: "frames_ok p st1" by blast
  from f have "frames_ok p (st1\<lparr>bracket := bracket st1 - (int (length (split itm (last itm))) - 1)\<rparr>)"
    by simp
  from close_loop_frames[OF this] True assms(2) sp a show ?thesis
    by (simp add: close_bracket_def Let_def)
qed

lemma step_frames:
  assumes "frames_ok p st" "chunk_types p \<noteq> None \<or> \<not> partial_match p" "token_ok p itm"
  shows "\<exists>st'. step p st itm = Inr st' \<and> frames_ok p st'"
proof -
  from open_bracket_frames[OF assms] obtain st1 itm1 where
    o: "open_bracket p st itm = Inr (st1, itm1)" and f: "frames_ok p st1" and n: "itm1 \<noteq> []"
    by blast
  from close_bracket_frames[OF f n] o show ?thesis by (simp add: step_def)
qed

lemma run_frames:
  assumes "chunk_types p \<noteq> None \<or> \<not> partial_match p"
  shows "frames_ok p st \<Longrightarrow> \<forall>t\<in>set toks. token_ok p t \<Longrightarrow>
           \<exists>st'. run p st toks = Inr st' \<and> frames_ok p st'"
proof (induction toks arbitrary: st)
  case Nil
  then show ?case by simp
next
  case (Cons itm itms)
  from step_frames[OF Cons.prems(1) assms, of itm] Cons.prems(2) obtain st1 where
    s: "step p st itm = Inr st1" and f: "frames_ok p st1" by auto
  from Cons.IH[OF f] Cons.prems(2) s show ?case by simp
qed

lemma init_frames: "frames_ok p (init p)"
  by (simp add: frames_ok_def init_def is_Tree_def)

subsection \<open>Without cascading the stack is the root frame\<close>

lemma append_top_single:
  "append_top [Tree label children] x = Inr [Tree label (children @ [x])]"
  by (simp add: append_top_def)

lemma append_top_last_single:
  "append_top_last [Tree label children] x = Inr stk \<Longrightarrow> \<exists>children'. stk = [Tree label children']"
  by (auto simp: append_top_last_def split: if_splits sum.splits)

lemma open_bracket_root:
  assumes "\<not> cascade p" "open_bracket p st itm = Inr (st', itm')"
    "stack st = [Tree label children]"
  shows "\<exists>children'. stack st' = [Tree label children']"
proof (cases itm)
  case Nil
  with assms show ?thesis by (simp add: open_bracket_def)
next
  case (Cons c rest)
  show ?thesis
  proof (cases "L_BRACKET c")
    case False
    with assms Cons show ?thesis by (simp add: open_bracket_def)
  next
    case True
    with assms Cons obtain matched lbl where m: "match_label p rest = Inr (matched, lbl)"
      by (auto simp: open_bracket_def split: sum.splits)
    with assms Cons True show ?thesis
      by (auto simp: open_bracket_def Let_def append_top_single split: if_splits)
  qed
qed

lemma attach_leaf_root:
  assumes "\<not> cascade p" "attach_leaf p st leaf = Inr st'" "stack st = [Tree label children]"
  shows "\<exists>children'. stack st' = [Tree label children']"
proof (cases "inTag st \<noteq> [] \<and> last (inTag st) \<le> bracket st")
  case True
  with assms obtain stk where a: "append_top_last [Tree label children] leaf = Inr stk"
    and s: "st' = st\<lparr>stack := stk\<rparr>"
    by (auto simp: attach_leaf_def split: sum.splits)
  from append_top_last_single[OF a] s show ?thesis by auto
next
  case False
  then have "attach_leaf p st leaf =
      (case (if cascade p then reparent (stack st) else Inr (stack st)) of
         Inl e \<Rightarrow> Inl e
       | Inr stk \<Rightarrow>
           (case append_top stk leaf of
              Inl e \<Rightarrow> Inl e
            | Inr stk' \<Rightarrow> Inr (st\<lparr>stack := stk', inTag := butlast (butlast (inTag st))\<rparr>)))"
    unfolding attach_leaf_def by (rule if_not_P)
  with assms show ?thesis by (auto simp: append_top_single)
qed

lemma close_loop_root:
  "\<not> cascade p \<Longrightarrow> close_loop p st = Inr st' \<Longrightarrow> stack st' = stack st"
proof (induction p st rule: close_loop.induct)
  case (1 p st)
  show ?case
  proof (cases "inTag st \<noteq> [] \<and> bracket st < last (inTag st)")
    case False
    then have "close_loop p st = Inr st"
      by (subst close_loop.simps) (rule if_not_P)
    with "1.prems" show ?thesis by simp
  next
    case True
    then have "close_loop p st =
        (case (if cascade p then reparent (stack st) else Inr (stack st)) of
           Inl e \<Rightarrow> Inl e
         | Inr stk \<Rightarrow> close_loop p (st\<lparr>stack := stk, inTag := butlast (butlast (inTag st))\<rparr>))"
      by (subst close_loop.simps) (rule if_P)
    with "1.prems" have
      c: "close_loop p (st\<lparr>stack := stack st, inTag := butlast (butlast (inTag st))\<rparr>) = Inr st'"
      by simp
    have r: "(if cascade p then reparent (stack st) else Inr (stack st)) = Inr (stack st)"
      using "1.prems"(1) by simp
    from "1.IH"[OF True r "1.prems"(1) c] show ?thesis by simp
  qed
qed

lemma close_bracket_root:
  assumes "\<not> cascade p" "close_bracket p st itm = Inr st'" "stack st = [Tree label children]"
  shows "\<exists>children'. stack st' = [Tree label children']"
proof (cases "itm \<noteq> [] \<and> R_BRACKET (last itm)")
  case False
  with assms show ?thesis by (auto simp: close_bracket_def split: if_splits)
next
  case True
  with assms obtain w pieces st1 where
    a: "attach_leaf p st (Leaf (itmType st) w) = Inr st1"
    and c: "close_loop p (st1\<lparr>bracket := bracket st1 - (int (length (split itm (last itm))) - 1)\<rparr>) = Inr st'"
    by (auto simp: close_bracket_def Let_def split: list.splits sum.splits)
  from attach_leaf_root[OF assms(1) a assms(3)] close_loop_root[OF assms(1) c]
  show ?thesis by simp
qed

lemma step_root:
  assumes "\<not> cascade p" "step p st itm = Inr st'" "stack st = [Tree label children]"
  shows "\<exists>children'. stack st' = [Tree label children']"
proof -
  from assms(2) obtain st1 itm1 where o: "open_bracket p st itm = Inr (st1, itm1)"
    and c: "close_bracket p st1 itm1 = Inr st'"
    by (auto simp: step_def split: sum.splits)
  from open_bracket_root[OF assms(1) o assms(3)] obtain children1 where
    "stack st1 = [Tree label children1]" by blast
  from close_bracket_root[OF assms(1) c this] show ?thesis .
qed

lemma run_root:
  "\<not> cascade p \<Longrightarrow> run p st toks = Inr st' \<Longrightarrow> stack st = [Tree label children] \<Longrightarrow>
     \<exists>children'. stack st' = [Tree label children']"
proof (induction toks arbitrary: st children)
  case Nil
  then show ?case by simp
next
  case (Cons itm itms)
  from Cons.prems(2) obtain st1 where s: "step p st itm = Inr st1" and r: "run p st1 itms = Inr st'"
    by (auto split: sum.splits)
  from step_root[OF Cons.prems(1) s Cons.prems(3)] obtain children1 where
    "stack st1 = [Tree label children1]" by blast
  from Cons.IH[OF Cons.prems(1) r this] show ?case .
qed

subsection \<open>A policy under which no label matches\<close>

lemma close_loop_no_markers: "inTag st = [] \<Longrightarrow> close_loop p st = Inr st"
  by (subst close_loop.simps) simp

lemma reparent_single: "reparent [t] = Inr [t]"
  by (simp add: reparent_def)

lemma attach_leaf_no_markers:
  assumes "inTag st = []" "stack st = [Tree label children]"
  shows "attach_leaf p st leaf = Inr (st\<lparr>stack := [Tree label (children @ [leaf])], inTag := []\<rparr>)"
  using assms by (simp add: attach_leaf_def reparent_single append_top_single)

lemma flat_step:
  assumes nm: "\<And>label. match_label p label = Inr (False, label)"
    and tok: "token_ok p itm"
    and st: "inTag st = []" "stack st = [Tree root children]"
  shows "\<exists>st'. step p st itm = Inr st' \<and> inTag st' = [] \<and>
           stack st' = [Tree root (children @ map (\<lambda>(tag, w). Leaf tag w) (terminals p (itmType st) [itm]))]"
proof -
  from tok obtain c rest where itm: "itm = c # rest" by (cases itm) (auto simp: token_ok_def)
  have rl: "\<And>label. relabel p label = label"
    using match_label_relabel[OF nm] by simp
  define itm1 where "itm1 = (if L_BRACKET c then rest else itm)"
  define st1 where "st1 = (if L_BRACKET c then st\<lparr>bracket := bracket st + 1, itmType := Some rest\<rparr> else st)"
  have o: "open_bracket p st itm = Inr (st1, itm1)"
    using itm nm by (simp add: open_bracket_def Let_def st1_def itm1_def)
  have ne: "itm1 \<noteq> []" using tok itm rl by (auto simp: token_ok_def itm1_def)
  have s1: "inTag st1 = []" "stack st1 = [Tree root children]"
    using st by (simp_all add: st1_def)
  have t: "terminals p (itmType st) [itm] =
      (if R_BRACKET (last itm1) then [(itmType st1, hd (split itm1 (last itm1)))] else [])"
    using itm rl ne by (cases "L_BRACKET c") (simp_all add: Let_def itm1_def st1_def)
  show ?thesis
  proof (cases "R_BRACKET (last itm1)")
    case False
    with o ne s1 t show ?thesis by (simp add: step_def close_bracket_def)
  next
    case True
    obtain w pieces where sp: "split itm1 (last itm1) = w # pieces"
      using split_nonempty[of itm1 "last itm1"] by (cases "split itm1 (last itm1)") auto
    from attach_leaf_no_markers[OF s1, of p "Leaf (itmType st1) w"] close_loop_no_markers
    have "close_bracket p st1 itm1 =
        Inr (st1\<lparr>stack := [Tree root (children @ [Leaf (itmType st1) w])], inTag := [],
                 bracket := bracket st1 - (int (length (split itm1 (last itm1))) - 1)\<rparr>)"
      using True ne sp by (simp add: close_bracket_def Let_def)
    with o t True sp show ?thesis by (simp add: step_def)
  qed
qed

lemma flat_run:
  assumes nm: "\<And>label. match_label p label = Inr (False, label)"
  shows "\<forall>t\<in>set toks. token_ok p t \<Longrightarrow> inTag st = [] \<Longrightarrow> stack st = [Tree root children] \<Longrightarrow>
     \<exists>st'. run p st toks = Inr st' \<and> inTag st' = [] \<and>
       stack st' = [Tree root (children @ map (\<lambda>(tag, w). Leaf tag w) (terminals p (itmType st) toks))]"
proof (induction toks arbitrary: st children)
  case Nil
  then show ?case by simp
next
  case (Cons itm itms)
  from Cons.prems(1) have tok: "token_ok p itm" and toks: "\<forall>t\<in>set itms. token_ok p t" by simp_all
  from flat_step[OF nm tok Cons.prems(2,3)] obtain st1 where
    s: "step p st itm = Inr st1" and i: "inTag st1 = []"
    and k: "stack st1 = [Tree root (children @ map (\<lambda>(tag, w). Leaf tag w) (terminals p (itmType st) [itm]))]"
    by blast
  from Cons.IH[OF toks i k] obtain st' where
    r: "run p st1 itms = Inr st'" and i': "inTag st' = []"
    and k': "stack st' = [Tree root ((children @ map (\<lambda>(tag, w). Leaf tag w) (terminals p (itmType st) [itm]))
               @ map (\<lambda>(tag, w). Leaf tag w) (terminals p (itmType st1) itms))]"
    by blast
  from step_leaves[OF s, of itms] have
    "terminals p (itmType st) (itm # itms) = terminals p (itmType st) [itm] @ terminals p (itmType st1) itms"
    by simp
  with s r i' k' show ?case by simp
qed

lemma flat_sentence:
  assumes "\<And>label. match_label p label = Inr (False, label)" "\<forall>t\<in>set toks. token_ok p t"
  shows "chunk_parse_sentence p toks =
           Inr [Tree (top_node p) (map (\<lambda>(tag, w). Leaf tag w) (terminals p None toks))]"
proof -
  have "inTag (init p) = []" "stack (init p) = [Tree (top_node p) []]" "itmType (init p) = None"
    by (simp_all add: init_def)
  from flat_run[OF assms(1) assms(2) this(1,2)] this(3) show ?thesis
    by (auto simp: chunk_parse_sentence_def)
qed

subsection \<open>The loop of partial matching\<close>










subsection \<open>Sentences in the form of the corpus\<close>








section \<open>The claims\<close>

subsection \<open>The frame stack\<close>

text \<open>
  C1. The claim: for every token sequence of a sentence with balanced brackets and every
  chunk policy, the scan of the sentence ends with exactly one frame on the stack, the root
  labelled \<^verbatim>\<open>top_node\<close>. The code does not do so when chunks nest under
  \<^verbatim>\<open>cascade\<close>: for the balanced sentence \<^verbatim>\<open>(PP (P on) (NP (N wisan)))\<close> with
  \<^verbatim>\<open>chunk_types=('NP', 'PP')\<close> it yields a stack of two frames, an empty root and the
  \<^verbatim>\<open>PP\<close> frame that was never re-parented.
\<close>

theorem cascade_nested_chunks_leave_two_frames:
  "balanced_brackets [''(PP'', ''(P'', ''on)'', ''(NP'', ''(N'', ''wisan)))''] \<and>
   chunk_parse_sentence (default_policy\<lparr>chunk_types := Some [''NP'', ''PP''], cascade := True\<rparr>)
       [''(PP'', ''(P'', ''on)'', ''(NP'', ''(N'', ''wisan)))''] =
     Inr [Tree ''S'' [],
          Tree ''PP'' [Leaf (Some ''P'') ''on'', Tree ''NP'' [Leaf (Some ''N'') ''wisan'']]]"
  by code_simp

text \<open>
  C2. The claim: the depth markers \<^verbatim>\<open>inTag\<close> hold exactly one marker for each open
  chunk frame, and the loop after the decrement removes exactly one marker for each chunk
  frame it closes. The code assigns \<^verbatim>\<open>inTag[:-2]\<close>: in the same sentence, the token
  \<^verbatim>\<open>wisan))\<close> is read with the markers \<^verbatim>\<open>[1, 2]\<close> of the two open chunk frames,
  its loop closes the \<^verbatim>\<open>NP\<close> frame alone (opened at depth 2, new depth 1) and leaves no
  marker, while the \<^verbatim>\<open>PP\<close> frame is still open on the stack.
\<close>

theorem close_loop_drops_two_markers:
  "run (default_policy\<lparr>chunk_types := Some [''NP'', ''PP''], cascade := True\<rparr>)
       (init (default_policy\<lparr>chunk_types := Some [''NP'', ''PP''], cascade := True\<rparr>))
       [''(PP'', ''(P'', ''on)'', ''(NP'', ''(N''] =
     Inr \<lparr>bracket = 3, itmType = Some ''N'',
          stack = [Tree ''S'' [], Tree ''PP'' [Leaf (Some ''P'') ''on''], Tree ''NP'' []],
          inTag = [1, 2]\<rparr> \<and>
   close_loop (default_policy\<lparr>chunk_types := Some [''NP'', ''PP''], cascade := True\<rparr>)
       \<lparr>bracket = 1, itmType = Some ''N'',
        stack = [Tree ''S'' [], Tree ''PP'' [Leaf (Some ''P'') ''on''],
                 Tree ''NP'' [Leaf (Some ''N'') ''wisan'']],
        inTag = [1, 2]\<rparr> =
     Inr \<lparr>bracket = 1, itmType = Some ''N'',
          stack = [Tree ''S'' [],
                   Tree ''PP'' [Leaf (Some ''P'') ''on'', Tree ''NP'' [Leaf (Some ''N'') ''wisan'']]],
          inTag = []\<rparr> \<and>
   run (default_policy\<lparr>chunk_types := Some [''NP'', ''PP''], cascade := True\<rparr>)
       (init (default_policy\<lparr>chunk_types := Some [''NP'', ''PP''], cascade := True\<rparr>))
       [''(PP'', ''(P'', ''on)'', ''(NP'', ''(N'', ''wisan))''] =
     Inr \<lparr>bracket = 1, itmType = Some ''N'',
          stack = [Tree ''S'' [],
                   Tree ''PP'' [Leaf (Some ''P'') ''on'', Tree ''NP'' [Leaf (Some ''N'') ''wisan'']]],
          inTag = []\<rparr>"
  by code_simp

text \<open>
  C10. The claim: without \<^verbatim>\<open>cascade\<close> the stack holds the root frame alone at every
  step, and a matched chunk is appended at once as a child of the root. The code appends the
  chunk only \<^verbatim>\<open>if len(inTag) == 0\<close>: in \<^verbatim>\<open>(NP (NP w1) w2)\<close> the second
  \<^verbatim>\<open>(NP\<close> matches while the first chunk is open, and it is neither appended nor
  pushed.
\<close>

theorem nested_match_counterexample:
  "\<not> cascade default_policy \<and>
   match_label default_policy ''NP'' = Inr (True, ''NP'') \<and>
   run default_policy (init default_policy) (take 1 [''(NP'', ''(NP'', ''w1)'', ''w2)'']) =
     Inr \<lparr>bracket = 1, itmType = Some ''NP'', stack = [Tree ''S'' [Tree ''NP'' []]], inTag = [1]\<rparr> \<and>
   open_bracket default_policy
       \<lparr>bracket = 1, itmType = Some ''NP'', stack = [Tree ''S'' [Tree ''NP'' []]], inTag = [1]\<rparr>
       ''(NP'' =
     Inr (\<lparr>bracket = 2, itmType = Some ''NP'', stack = [Tree ''S'' [Tree ''NP'' []]], inTag = [1]\<rparr>,
          ''NP'') \<and>
   chunk_parse_sentence default_policy [''(NP'', ''(NP'', ''w1)'', ''w2)''] =
     Inr [Tree ''S'' [Tree ''NP'' [Leaf (Some ''NP'') ''w1'', Leaf (Some ''NP'') ''w2'']]]"
  by code_simp

text \<open>
  C10, amended. Without \<^verbatim>\<open>cascade\<close>, after every prefix of the tokens of a sentence
  that the scan reads without raising, the stack is the single root frame labelled
  \<^verbatim>\<open>top_node\<close>. A label that matches while no chunk is open (\<^verbatim>\<open>inTag\<close> empty)
  is appended to the children of that root and its depth is marked; a label that matches
  while a chunk is open changes the bracket counter and the current label only, and nothing
  is appended or pushed.
\<close>

theorem no_cascade_stack_is_root:
  assumes "\<not> cascade p" and "run p (init p) (take n toks) = Inr st"
  shows "\<exists>children. stack st = [Tree (top_node p) children] \<and>
           (\<forall>c label itm'. L_BRACKET c \<and> match_label p label = Inr (True, itm') \<longrightarrow>
              open_bracket p st (c # label) =
                Inr (if inTag st = []
                     then st\<lparr>bracket := bracket st + 1, itmType := Some itm',
                             stack := [Tree (top_node p) (children @ [Tree itm' []])],
                             inTag := [bracket st + 1]\<rparr>
                     else st\<lparr>bracket := bracket st + 1, itmType := Some itm'\<rparr>, itm'))"
proof -
  have "stack (init p) = [Tree (top_node p) []]" by (simp add: init_def)
  from run_root[OF assms(1) assms(2) this] obtain children where
    s: "stack st = [Tree (top_node p) children]" by blast
  then have "\<forall>c label itm'. L_BRACKET c \<and> match_label p label = Inr (True, itm') \<longrightarrow>
              open_bracket p st (c # label) =
                Inr (if inTag st = []
                     then st\<lparr>bracket := bracket st + 1, itmType := Some itm',
                             stack := [Tree (top_node p) (children @ [Tree itm' []])],
                             inTag := [bracket st + 1]\<rparr>
                     else st\<lparr>bracket := bracket st + 1, itmType := Some itm'\<rparr>, itm')"
    using assms(1) by (simp add: open_bracket_def Let_def append_top_single)
  with s show ?thesis by blast
qed

theorem no_cascade_stack_is_root_witness:
  "\<not> cascade default_policy \<and>
   L_BRACKET (CHR ''('') \<and> match_label default_policy ''NP'' = Inr (True, ''NP'') \<and>
   run default_policy (init default_policy) (take 2 [''(NP'', ''a)'', ''(NP'', ''b)'']) =
     Inr \<lparr>bracket = 0, itmType = Some ''NP'',
          stack = [Tree ''S'' [Tree ''NP'' [Leaf (Some ''NP'') ''a'']]], inTag = []\<rparr> \<and>
   open_bracket default_policy
       \<lparr>bracket = 0, itmType = Some ''NP'',
        stack = [Tree ''S'' [Tree ''NP'' [Leaf (Some ''NP'') ''a'']]], inTag = []\<rparr> ''(NP'' =
     Inr (\<lparr>bracket = 1, itmType = Some ''NP'',
           stack = [Tree ''S'' [Tree ''NP'' [Leaf (Some ''NP'') ''a''], Tree ''NP'' []]],
           inTag = [1]\<rparr>, ''NP'') \<and>
   run default_policy (init default_policy) (take 1 [''(NP'', ''(NP'', ''w1)'', ''w2)'']) =
     Inr \<lparr>bracket = 1, itmType = Some ''NP'', stack = [Tree ''S'' [Tree ''NP'' []]], inTag = [1]\<rparr> \<and>
   open_bracket default_policy
       \<lparr>bracket = 1, itmType = Some ''NP'', stack = [Tree ''S'' [Tree ''NP'' []]], inTag = [1]\<rparr>
       ''(NP'' =
     Inr (\<lparr>bracket = 2, itmType = Some ''NP'', stack = [Tree ''S'' [Tree ''NP'' []]], inTag = [1]\<rparr>,
          ''NP'')"
proof -
  let ?st = "\<lparr>bracket = 0, itmType = Some ''NP'',
          stack = [Tree ''S'' [Tree ''NP'' [Leaf (Some ''NP'') ''a'']]], inTag = []\<rparr>"
  let ?su = "\<lparr>bracket = 1, itmType = Some ''NP'', stack = [Tree ''S'' [Tree ''NP'' []]], inTag = [1]\<rparr>"
  have h1: "\<not> cascade default_policy" by (simp add: default_policy_def)
  have h2: "run default_policy (init default_policy) (take 2 [''(NP'', ''a)'', ''(NP'', ''b)'']) = Inr ?st"
    by code_simp
  have h2': "run default_policy (init default_policy) (take 1 [''(NP'', ''(NP'', ''w1)'', ''w2)'']) = Inr ?su"
    by code_simp
  have h3: "L_BRACKET (CHR ''('')" by (simp add: L_BRACKET_def)
  have h4: "match_label default_policy ''NP'' = Inr (True, ''NP'')"
    by (simp add: match_label_def default_policy_def)
  have tn: "top_node default_policy = ''S''" by (simp add: default_policy_def)
  from no_cascade_stack_is_root[OF h1 h2] obtain children where
    s: "stack ?st = [Tree (top_node default_policy) children]"
    and a: "\<forall>c label itm'. L_BRACKET c \<and> match_label default_policy label = Inr (True, itm') \<longrightarrow>
              open_bracket default_policy ?st (c # label) =
                Inr (if inTag ?st = []
                     then ?st\<lparr>bracket := bracket ?st + 1, itmType := Some itm',
                             stack := [Tree (top_node default_policy) (children @ [Tree itm' []])],
                             inTag := [bracket ?st + 1]\<rparr>
                     else ?st\<lparr>bracket := bracket ?st + 1, itmType := Some itm'\<rparr>, itm')"
    by blast
  from s have c: "children = [Tree ''NP'' [Leaf (Some ''NP'') ''a'']]" by simp
  from a h3 h4 have "open_bracket default_policy ?st (CHR ''('' # ''NP'') =
                Inr (if inTag ?st = []
                     then ?st\<lparr>bracket := bracket ?st + 1, itmType := Some ''NP'',
                             stack := [Tree (top_node default_policy) (children @ [Tree ''NP'' []])],
                             inTag := [bracket ?st + 1]\<rparr>
                     else ?st\<lparr>bracket := bracket ?st + 1, itmType := Some ''NP''\<rparr>, ''NP'')"
    by blast
  then have o1: "open_bracket default_policy ?st ''(NP'' =
     Inr (\<lparr>bracket = 1, itmType = Some ''NP'',
           stack = [Tree ''S'' [Tree ''NP'' [Leaf (Some ''NP'') ''a''], Tree ''NP'' []]],
           inTag = [1]\<rparr>, ''NP'')"
    by (simp add: c tn)
  from no_cascade_stack_is_root[OF h1 h2'] obtain children' where
    a': "\<forall>c label itm'. L_BRACKET c \<and> match_label default_policy label = Inr (True, itm') \<longrightarrow>
              open_bracket default_policy ?su (c # label) =
                Inr (if inTag ?su = []
                     then ?su\<lparr>bracket := bracket ?su + 1, itmType := Some itm',
                             stack := [Tree (top_node default_policy) (children' @ [Tree itm' []])],
                             inTag := [bracket ?su + 1]\<rparr>
                     else ?su\<lparr>bracket := bracket ?su + 1, itmType := Some itm'\<rparr>, itm')"
    by blast
  from a' h3 h4 have "open_bracket default_policy ?su (CHR ''('' # ''NP'') =
                Inr (if inTag ?su = []
                     then ?su\<lparr>bracket := bracket ?su + 1, itmType := Some ''NP'',
                             stack := [Tree (top_node default_policy) (children' @ [Tree ''NP'' []])],
                             inTag := [bracket ?su + 1]\<rparr>
                     else ?su\<lparr>bracket := bracket ?su + 1, itmType := Some ''NP''\<rparr>, ''NP'')"
    by blast
  then have o2: "open_bracket default_policy ?su ''(NP'' =
     Inr (\<lparr>bracket = 2, itmType = Some ''NP'', stack = [Tree ''S'' [Tree ''NP'' []]], inTag = [1]\<rparr>,
          ''NP'')"
    by simp
  show ?thesis
    by (intro conjI) (rule h1, rule h3, rule h4, rule h2, rule o1, rule h2', rule o2)
qed

subsection \<open>The chunk policy\<close>

text \<open>
  C4. The claim: when \<^verbatim>\<open>chunk_types\<close> is \<^verbatim>\<open>None\<close>, every opened bracket label
  matches. The code tests \<^verbatim>\<open>chunk_types is not None and itm in chunk_types\<close>: the
  label \<^verbatim>\<open>NP\<close> does not match, and the sentence \<^verbatim>\<open>(NP w)\<close> gives a root with
  the leaf alone, no chunk.
\<close>

theorem unset_chunk_types_counterexample:
  "match_label (default_policy\<lparr>chunk_types := None\<rparr>) ''NP'' = Inr (False, ''NP'') \<and>
   chunk_parse_sentence (default_policy\<lparr>chunk_types := None\<rparr>) [''(NP'', ''w)''] =
     Inr [Tree ''S'' [Leaf (Some ''NP'') ''w'']]"
  by code_simp

text \<open>
  C4, amended. When \<^verbatim>\<open>chunk_types\<close> is \<^verbatim>\<open>None\<close> and \<^verbatim>\<open>partial_match\<close> is
  false, no label matches, and for tokens that the scan can index the output is the single
  root whose children are the leaves of the sentence in order: no chunk is made.
\<close>

theorem unset_chunk_types_match_nothing:
  assumes "chunk_types p = None" and "\<not> partial_match p" and "\<forall>t\<in>set toks. token_ok p t"
  shows "(\<forall>label. match_label p label = Inr (False, label)) \<and>
         chunk_parse_sentence p toks =
           Inr [Tree (top_node p) (map (\<lambda>(tag, w). Leaf tag w) (terminals p None toks))]"
proof -
  have nm: "\<And>label. match_label p label = Inr (False, label)"
    using assms(1,2) by (simp add: match_label_def)
  from flat_sentence[OF nm assms(3)] nm show ?thesis by blast
qed

theorem unset_chunk_types_match_nothing_witness:
  "chunk_types (default_policy\<lparr>chunk_types := None\<rparr>) = None \<and>
   \<not> partial_match (default_policy\<lparr>chunk_types := None\<rparr>) \<and>
   list_all (token_ok (default_policy\<lparr>chunk_types := None\<rparr>)) [''(S'', ''(NP'', ''a)'', ''(V'', ''b))''] \<and>
   match_label (default_policy\<lparr>chunk_types := None\<rparr>) ''NP'' = Inr (False, ''NP'') \<and>
   chunk_parse_sentence (default_policy\<lparr>chunk_types := None\<rparr>) [''(S'', ''(NP'', ''a)'', ''(V'', ''b))''] =
     Inr [Tree ''S'' [Leaf (Some ''NP'') ''a'', Leaf (Some ''V'') ''b'']]"
proof -
  let ?p = "default_policy\<lparr>chunk_types := None\<rparr>"
  let ?toks = "[''(S'', ''(NP'', ''a)'', ''(V'', ''b))'']"
  have h1: "chunk_types ?p = None" by simp
  have h2: "\<not> partial_match ?p" by (simp add: default_policy_def)
  have h3: "list_all (token_ok ?p) ?toks" by code_simp
  then have h3': "\<forall>t\<in>set ?toks. token_ok ?p t" by (simp only: list_all_iff)
  have t: "map (\<lambda>(tag, w). Leaf tag w) (terminals ?p None ?toks) =
             [Leaf (Some ''NP'') ''a'', Leaf (Some ''V'') ''b'']" by code_simp
  have n: "top_node ?p = ''S''" by (simp add: default_policy_def)
  from unset_chunk_types_match_nothing[OF h1 h2 h3'] t n h1 h2 h3 show ?thesis by simp
qed




text \<open>
  C7. The claim: the builder raises a policy error exactly when \<^verbatim>\<open>chunk_types\<close> is
  given but empty and \<^verbatim>\<open>partial_match\<close> is asked for. The code has no check of the
  policy: with \<^verbatim>\<open>chunk_types=()\<close> and \<^verbatim>\<open>partial_match=True\<close> the loop over the
  entries runs zero times, nothing matches and the sentence is returned flat.
\<close>

theorem empty_chunk_types_counterexample:
  "chunk_types (default_policy\<lparr>chunk_types := Some [], partial_match := True\<rparr>) = Some [] \<and>
   partial_match (default_policy\<lparr>chunk_types := Some [], partial_match := True\<rparr>) \<and>
   chunk_parse_sentence (default_policy\<lparr>chunk_types := Some [], partial_match := True\<rparr>)
       [''(NP'', ''w)''] =
     Inr [Tree ''S'' [Leaf (Some ''NP'') ''w'']]"
  by code_simp

text \<open>
  C7, amended. The builder raises no policy error. Whenever \<^verbatim>\<open>chunk_types\<close> is given,
  empty or not, or \<^verbatim>\<open>partial_match\<close> is false, the scan of tokens that it can index
  raises nothing; and when \<^verbatim>\<open>chunk_types\<close> is empty, whatever \<^verbatim>\<open>partial_match\<close>
  is, no label matches and the output is the root with the leaves of the sentence.
\<close>

theorem builder_raises_no_policy_error:
  assumes "chunk_types p \<noteq> None \<or> \<not> partial_match p" and "\<forall>t\<in>set toks. token_ok p t"
  shows "(\<exists>stk. chunk_parse_sentence p toks = Inr stk) \<and>
         (chunk_types p = Some [] \<longrightarrow>
            chunk_parse_sentence p toks =
              Inr [Tree (top_node p) (map (\<lambda>(tag, w). Leaf tag w) (terminals p None toks))])"
proof -
  from run_frames[OF assms(1) init_frames assms(2)] obtain st where
    "run p (init p) toks = Inr st" by blast
  then have a: "\<exists>stk. chunk_parse_sentence p toks = Inr stk"
    by (simp add: chunk_parse_sentence_def)
  have "chunk_types p = Some [] \<longrightarrow>
            chunk_parse_sentence p toks =
              Inr [Tree (top_node p) (map (\<lambda>(tag, w). Leaf tag w) (terminals p None toks))]"
  proof
    assume e: "chunk_types p = Some []"
    then have nm: "\<And>label. match_label p label = Inr (False, label)"
      by (simp add: match_label_def)
    from flat_sentence[OF nm assms(2)] show "chunk_parse_sentence p toks =
              Inr [Tree (top_node p) (map (\<lambda>(tag, w). Leaf tag w) (terminals p None toks))]" .
  qed
  with a show ?thesis by blast
qed

theorem builder_raises_no_policy_error_witness:
  "partial_match (default_policy\<lparr>chunk_types := Some [], partial_match := True\<rparr>) \<and>
   chunk_types (default_policy\<lparr>chunk_types := Some [], partial_match := True\<rparr>) = Some [] \<and>
   list_all (token_ok (default_policy\<lparr>chunk_types := Some [], partial_match := True\<rparr>))
      [''(S'', ''(NP-SBJ'', ''a)'', ''(V'', ''b))''] \<and>
   chunk_parse_sentence (default_policy\<lparr>chunk_types := Some [], partial_match := True\<rparr>)
      [''(S'', ''(NP-SBJ'', ''a)'', ''(V'', ''b))''] =
     Inr [Tree ''S'' [Leaf (Some ''NP-SBJ'') ''a'', Leaf (Some ''V'') ''b'']]"
proof -
  let ?p = "default_policy\<lparr>chunk_types := Some [], partial_match := True\<rparr>"
  let ?toks = "[''(S'', ''(NP-SBJ'', ''a)'', ''(V'', ''b))'']"
  have h0: "partial_match ?p" by simp
  have h3: "chunk_types ?p = Some []" by simp
  then have h1: "chunk_types ?p \<noteq> None \<or> \<not> partial_match ?p" by simp
  have h2: "list_all (token_ok ?p) ?toks" by code_simp
  then have h2': "\<forall>t\<in>set ?toks. token_ok ?p t" by (simp only: list_all_iff)
  have t: "map (\<lambda>(tag, w). Leaf tag w) (terminals ?p None ?toks) =
             [Leaf (Some ''NP-SBJ'') ''a'', Leaf (Some ''V'') ''b'']" by code_simp
  have n: "top_node ?p = ''S''" by (simp add: default_policy_def)
  from builder_raises_no_policy_error[OF h1 h2'] h3 t n
  have "chunk_parse_sentence ?p ?toks = Inr [Tree ''S'' [Leaf (Some ''NP-SBJ'') ''a'', Leaf (Some ''V'') ''b'']]"
    by simp
  with h0 h2 h3 show ?thesis by blast
qed

subsection \<open>The leaves\<close>







text \<open>
  A token with both brackets whose label collapses: \<^verbatim>\<open>(NP-1)\<close> becomes \<^verbatim>\<open>NP\<close>,
  which does not end in a closing bracket, so it opens a chunk and gives no leaf.
\<close>

lemma collapsed_token_gives_no_leaf:
  "chunk_parse_sentence (default_policy\<lparr>partial_match := True\<rparr>) [''(S'', ''(NP-1)'', ''(V'', ''b))''] =
     Inr [Tree ''S'' [Tree ''NP'' [Leaf (Some ''V'') ''b'']]] \<and>
   terminals (default_policy\<lparr>partial_match := True\<rparr>) None [''(S'', ''(NP-1)'', ''(V'', ''b))''] =
     [(Some ''V'', ''b'')]"
  by code_simp

subsection \<open>The annotation nodes\<close>

text \<open>
  C8. The claim: on every path to the structural parsing, also through
  \<^verbatim>\<open>YCOEParseCorpusReader._parse\<close>, the \<^verbatim>\<open>(CODE ...)\<close> and \<^verbatim>\<open>(ID ...)\<close> nodes
  are removed and the text is otherwise unchanged. The pattern of the module's
  \<^verbatim>\<open>_parse\<close> is greedy: on a line with a \<^verbatim>\<open>(CODE ...)\<close> node it removes all up
  to the last closing parenthesis, here the \<^verbatim>\<open>NP\<close> node too, and it keeps an
  \<^verbatim>\<open>(ID ...)\<close> node that does not end in a digit. \<^verbatim>\<open>YCOEParseCorpusReader._parse\<close>
  computes the stripped text and does not use it: its call of the base parser without
  \<^verbatim>\<open>self\<close> raises \<^verbatim>\<open>TypeError\<close> for an instance method, and a parser that
  takes the text alone gets the text with its \<^verbatim>\<open>(ID ...)\<close> node.
\<close>

theorem annotation_stripping_fails:
  "parse_strip ''(CODE <T1>) (NP (N x))'' = [] \<and>
   parse_strip ''( (NP (N x)) (ID a,b))'' = ''( (NP (N x)) (ID a,b))'' \<and>
   re_sub code_id_node ''( (NP (N x)) (ID a,1))'' = ''( (NP (N x)) )'' \<and>
   YCOEParseCorpusReader_parse (Instance_method (\<lambda>t. t)) ''( (NP (N x)) (ID a,1))'' =
     Inl TypeError \<and>
   YCOEParseCorpusReader_parse (Static_method (\<lambda>t. t)) ''( (NP (N x)) (ID a,1))'' =
     Inr ''( (NP (N x)) (ID a,1))''"
  by code_simp

subsection \<open>The formats\<close>

text \<open>
  C9. The claim: both \<^verbatim>\<open>read_document\<close> functions raise a format error for exactly
  the formats outside the six of the specification. The reader of the YCOE corpus has no
  branch for \<^verbatim>\<open>parsed-no-pos\<close> and raises \<^verbatim>\<open>ValueError\<close> for it.
\<close>

theorem ycoe_parsed_no_pos_counterexample:
  "''parsed-no-pos'' \<in> formats \<and>
   ycoe_read_document (Doc ''cocuraC'') ''parsed-no-pos'' default_policy = Inl ValueError"
  by (simp add: formats_def)

text \<open>
  C9, amended. For one document, \<^verbatim>\<open>read_document\<close> of the treebank reader raises
  \<^verbatim>\<open>ValueError\<close> exactly for the formats outside the six, and \<^verbatim>\<open>read_document\<close>
  of the YCOE reader raises it exactly for the formats outside \<^verbatim>\<open>raw\<close>,
  \<^verbatim>\<open>tokenized\<close>, \<^verbatim>\<open>tagged\<close>, \<^verbatim>\<open>chunked\<close> and \<^verbatim>\<open>parsed\<close>.
\<close>

theorem read_document_format_errors:
  "(treebank_read_document name format = Inl ValueError) = (format \<notin> formats) \<and>
   (ycoe_read_document (Doc name) format pol = Inl ValueError) =
     (format \<notin> formats - {''parsed-no-pos''})"
  by (simp add: treebank_read_document_def formats_def)

end
